theory Spec2Isabelle
  imports Complex_Main
begin

section \<open>Python values shared by both scripts\<close>

text \<open>
  The two scripts \<^verbatim>\<open>Data_Prep_3.py\<close> and \<^verbatim>\<open>Data_Merge_Final.py\<close> are embedded as
  pure functions. Python floats are modelled as exact reals, an exception as the left
  summand of a result, and the file system, the XML parser and the MIDI reader as the
  values they hand to the code (a parsed element tree, a list of notes, a list of rows).
\<close>

datatype py_error =
    ValueError | TypeError | AttributeError | ZeroDivisionError | KeyError | IndexError

subsection \<open>\<^verbatim>\<open>int(s)\<close> and \<^verbatim>\<open>str(i)\<close> on ASCII strings\<close>

definition is_space :: "char \<Rightarrow> bool" where
  "is_space c \<longleftrightarrow> (of_char c :: nat) \<in> {9, 10, 11, 12, 13, 28, 29, 30, 31, 32}"

definition is_digit :: "char \<Rightarrow> bool" where
  "is_digit c \<longleftrightarrow> 48 \<le> (of_char c :: nat) \<and> (of_char c :: nat) \<le> 57"

definition digit_of :: "char \<Rightarrow> nat" where
  "digit_of c = (of_char c :: nat) - 48"

definition strip :: "string \<Rightarrow> string" where
  \<comment> \<open>\<^verbatim>\<open>s.strip()\<close>: whitespace removed at both ends.\<close>
  "strip s = rev (dropWhile is_space (rev (dropWhile is_space s)))"

fun int_digits :: "bool \<Rightarrow> string \<Rightarrow> string option" where
  \<comment> \<open>The digits of a decimal literal; one underscore is allowed between two digits.
      The flag says that the previous character was a digit.\<close>
  "int_digits prev [] = (if prev then Some [] else None)"
| "int_digits prev (c # cs) =
     (if is_digit c then map_option ((#) c) (int_digits True cs)
      else if c = CHR ''_'' \<and> prev then int_digits False cs
      else None)"

definition digits_value :: "string \<Rightarrow> nat" where
  "digits_value ds = foldl (\<lambda>a c. 10 * a + digit_of c) 0 ds"

definition parse_nat :: "string \<Rightarrow> nat option" where
  "parse_nat s = map_option digits_value (int_digits False s)"

definition py_int :: "string option \<Rightarrow> py_error + int" where
  \<comment> \<open>\<^verbatim>\<open>int(x)\<close> for \<open>x\<close> a string or \<open>None\<close>: \<open>None\<close> raises TypeError, a string
      that is not an optionally signed decimal literal raises ValueError.\<close>
  "py_int x =
     (case x of
        None \<Rightarrow> Inl TypeError
      | Some s \<Rightarrow>
          (case strip s of
             [] \<Rightarrow> Inl ValueError
           | c # cs \<Rightarrow>
               if c = CHR ''-'' then
                 (case parse_nat cs of None \<Rightarrow> Inl ValueError | Some n \<Rightarrow> Inr (- int n))
               else if c = CHR ''+'' then
                 (case parse_nat cs of None \<Rightarrow> Inl ValueError | Some n \<Rightarrow> Inr (int n))
               else
                 (case parse_nat (c # cs) of None \<Rightarrow> Inl ValueError | Some n \<Rightarrow> Inr (int n))))"

definition digit_char :: "nat \<Rightarrow> char" where
  "digit_char d = char_of (48 + d)"

fun show_nat :: "nat \<Rightarrow> string" where
  "show_nat n = (if n < 10 then [digit_char n] else show_nat (n div 10) @ [digit_char (n mod 10)])"

declare show_nat.simps [simp del]

definition show_int :: "int \<Rightarrow> string" where
  \<comment> \<open>\<^verbatim>\<open>str(i)\<close>, which is what \<^verbatim>\<open>f"{i}"\<close> formats.\<close>
  "show_int i = (if i < 0 then CHR ''-'' # show_nat (nat (- i)) else show_nat (nat i))"

fun split_sep :: "char \<Rightarrow> string \<Rightarrow> string list" where
  \<comment> \<open>\<^verbatim>\<open>s.split(sep)\<close> for a one-character separator.\<close>
  "split_sep sep [] = [[]]"
| "split_sep sep (c # cs) =
     (if c = sep then [] # split_sep sep cs
      else (case split_sep sep cs of
              [] \<Rightarrow> [[c]]
            | p # ps \<Rightarrow> (c # p) # ps))"

subsection \<open>\<^verbatim>\<open>round(x, 5)\<close>\<close>

definition round_half_even :: "real \<Rightarrow> int" where
  "round_half_even y =
     (let f = \<lfloor>y\<rfloor>; d = y - of_int f
      in if d < 1 / 2 then f
         else if 1 / 2 < d then f + 1
         else if even f then f else f + 1)"

definition round5 :: "real \<Rightarrow> real" where
  "round5 x = of_int (round_half_even (x * 100000)) / 100000"

section \<open>\<^verbatim>\<open>Data_Prep_3.py\<close>\<close>

subsection \<open>\<^verbatim>\<open>sig_to_duration\<close>\<close>

definition sig_to_duration :: "string option \<Rightarrow> real" where
  \<comment> \<open>Every exception inside the \<^verbatim>\<open>try\<close> (a part that is no integer, not exactly two
      parts, a zero beat type) is caught by the bare \<^verbatim>\<open>except\<close> and gives 2.0.\<close>
  "sig_to_duration ts =
     (case ts of
        None \<Rightarrow> 2
      | Some s \<Rightarrow>
          (case map (\<lambda>p. py_int (Some p)) (split_sep CHR ''/'' s) of
             [Inr beats, Inr beat_type] \<Rightarrow>
               if beat_type = 0 then 2
               else (60 / 120) * of_int beats * (4 / of_int beat_type)
           | _ \<Rightarrow> 2))"

subsection \<open>\<^verbatim>\<open>load_downbeats\<close>\<close>

fun split_ws_from :: "string \<Rightarrow> string \<Rightarrow> string list" where
  \<comment> \<open>\<^verbatim>\<open>s.split()\<close>: the maximal runs of non-whitespace characters. The first argument
      is the run being read, reversed.\<close>
  "split_ws_from cur [] = (if cur = [] then [] else [rev cur])"
| "split_ws_from cur (c # cs) =
     (if is_space c then (if cur = [] then [] else [rev cur]) @ split_ws_from [] cs
      else split_ws_from (c # cur) cs)"

definition split_ws :: "string \<Rightarrow> string list" where
  "split_ws s = split_ws_from [] s"

fun contains :: "string \<Rightarrow> string \<Rightarrow> bool" where
  \<comment> \<open>\<^verbatim>\<open>sub in s\<close>\<close>
  "contains sub [] = (sub = [])"
| "contains sub (c # cs) = (take (length sub) (c # cs) = sub \<or> contains sub cs)"

fun load_times :: "(string \<Rightarrow> real option) \<Rightarrow> string list \<Rightarrow> real list \<Rightarrow> real list" where
  \<comment> \<open>The loop over the lines of the annotation file. \<^verbatim>\<open>float\<close> is a parameter: it gives
      \<open>None\<close> where Python's \<^verbatim>\<open>float(s)\<close> raises ValueError.\<close>
  "load_times py_float [] times_acc = times_acc"
| "load_times py_float (line # rest) times_acc =
     (let parts = split_ws (strip line)
      in if 3 \<le> length parts \<and> contains ''db'' (parts ! 2) then
           (case py_float (parts ! 0) of
              Some t \<Rightarrow> load_times py_float rest (times_acc @ [t])
            | None \<Rightarrow> load_times py_float rest times_acc)
         else load_times py_float rest times_acc)"

definition load_downbeats :: "(string \<Rightarrow> real option) \<Rightarrow> string list \<Rightarrow> real list" where
  "load_downbeats py_float file_lines = sort (load_times py_float file_lines [0])"

subsection \<open>\<^verbatim>\<open>extract_time_signatures\<close>\<close>

datatype element =
  Element (tag: string) (attrib: "(string \<times> string) list") (elem_text: "string option")
    (children: "element list")

fun descendants :: "element \<Rightarrow> element list" where
  \<comment> \<open>The elements below a node in document order, the node itself excluded: what
      \<^verbatim>\<open>.//\<close> ranges over.\<close>
  "descendants (Element t a x cs) = concat (map (\<lambda>c. c # descendants c) cs)"

definition findall_descendants :: "string \<Rightarrow> element \<Rightarrow> element list" where
  \<comment> \<open>\<^verbatim>\<open>root.findall('.//name')\<close>\<close>
  "findall_descendants name root_elem = filter (\<lambda>e. tag e = name) (descendants root_elem)"

definition find_child :: "string \<Rightarrow> element \<Rightarrow> element option" where
  \<comment> \<open>\<^verbatim>\<open>e.find('name')\<close>: the first child with that tag, or \<open>None\<close>.\<close>
  "find_child name e =
     (case filter (\<lambda>c. tag c = name) (children e) of [] \<Rightarrow> None | c # _ \<Rightarrow> Some c)"

definition find_path2 :: "string \<Rightarrow> string \<Rightarrow> element \<Rightarrow> element option" where
  \<comment> \<open>\<^verbatim>\<open>e.find('a/b')\<close>: the first \<open>b\<close> child of an \<open>a\<close> child, or \<open>None\<close>.\<close>
  "find_path2 a b e =
     (case concat (map (\<lambda>c. filter (\<lambda>g. tag g = b) (children c))
                       (filter (\<lambda>c. tag c = a) (children e))) of
        [] \<Rightarrow> None
      | g # _ \<Rightarrow> Some g)"

definition text_of :: "element option \<Rightarrow> py_error + string option" where
  \<comment> \<open>\<^verbatim>\<open>x.text\<close> for \<open>x\<close> the result of a \<^verbatim>\<open>find\<close>: on \<open>None\<close> the attribute access
      raises AttributeError.\<close>
  "text_of x = (case x of None \<Rightarrow> Inl AttributeError | Some e \<Rightarrow> Inr (elem_text e))"

definition format_sig :: "int \<Rightarrow> int \<Rightarrow> string" where
  \<comment> \<open>\<^verbatim>\<open>f"{beats}/{beat_type}"\<close>\<close>
  "format_sig beats beat_type = show_int beats @ ''/'' @ show_int beat_type"

definition measure_point :: "element \<Rightarrow> py_error + (int \<times> string) option" where
  \<comment> \<open>One pass of the loop over the measures: \<open>Inr None\<close> where nothing is appended,
      \<open>Inl\<close> where the pass raises. The two \<^verbatim>\<open>.text\<close> reads stand before the
      \<^verbatim>\<open>try\<close>; the three \<^verbatim>\<open>int\<close> calls stand inside it, in the order measure number,
      beats, beat type.\<close>
  "measure_point measure_elem =
     (let num = map_of (attrib measure_elem) ''number'';
          time_elem = find_path2 ''attributes'' ''time'' measure_elem
      in if time_elem \<noteq> None \<and> num \<noteq> None then
           (case text_of (find_child ''beats'' (the time_elem)) of
              Inl e \<Rightarrow> Inl e
            | Inr beats \<Rightarrow>
                (case text_of (find_child ''beat-type'' (the time_elem)) of
                   Inl e \<Rightarrow> Inl e
                 | Inr beat_type \<Rightarrow>
                     (case py_int num of
                        Inl e \<Rightarrow> Inr None
                      | Inr m \<Rightarrow>
                          (case py_int beats of
                             Inl e \<Rightarrow> Inr None
                           | Inr b \<Rightarrow>
                               (case py_int beat_type of
                                  Inl e \<Rightarrow> Inr None
                                | Inr bt \<Rightarrow> Inr (Some (m, format_sig b bt)))))))
         else Inr None)"

fun collect_points :: "element list \<Rightarrow> (int \<times> string) list \<Rightarrow> py_error + (int \<times> string) list" where
  "collect_points [] ts_points = Inr ts_points"
| "collect_points (measure_elem # rest) ts_points =
     (case measure_point measure_elem of
        Inl e \<Rightarrow> Inl e
      | Inr None \<Rightarrow> collect_points rest ts_points
      | Inr (Some p) \<Rightarrow> collect_points rest (ts_points @ [p]))"

fun first_occurrences :: "(int \<times> string) list \<Rightarrow> (int \<times> string) list \<Rightarrow> (int \<times> string) list" where
  \<comment> \<open>The dictionary \<^verbatim>\<open>unique\<close> as its items in insertion order.\<close>
  "first_occurrences [] unique = unique"
| "first_occurrences ((m, sig) # rest) unique =
     (if m \<notin> fst ` set unique then first_occurrences rest (unique @ [(m, sig)])
      else first_occurrences rest unique)"

definition extract_time_signatures :: "element \<Rightarrow> py_error + (int \<times> string) list" where
  "extract_time_signatures root_elem =
     (case collect_points (findall_descendants ''measure'' root_elem) [] of
        Inl e \<Rightarrow> Inl e
      | Inr ts_points \<Rightarrow> Inr (sort_key fst (first_occurrences ts_points [])))"

subsection \<open>\<^verbatim>\<open>extract_notes\<close>\<close>

record midi_note =
  pitch :: int
  note_start :: real
  note_end :: real

text \<open>A row of the note table; the field \<open>row_c\<close> is the column \<^verbatim>\<open>c\<close>.\<close>

record note_row =
  row_measure :: int
  row_note :: string
  row_onset :: real
  row_offset :: real
  row_measure_start :: real
  row_measure_end :: real

function bisect_loop :: "real list \<Rightarrow> real \<Rightarrow> nat \<Rightarrow> nat \<Rightarrow> nat" where
  "bisect_loop a x lo hi =
     (if lo < hi then
        (let mid = (lo + hi) div 2
         in if x < a ! mid then bisect_loop a x lo mid else bisect_loop a x (mid + 1) hi)
      else lo)"
  by pat_completeness auto
termination
  by (relation "measure (\<lambda>(a, x, lo, hi). hi - lo)") auto

declare bisect_loop.simps [simp del]

definition bisect_right :: "real list \<Rightarrow> real \<Rightarrow> nat" where
  \<comment> \<open>\<^verbatim>\<open>bisect.bisect_right(a, x)\<close>: the bisection of the standard library.\<close>
  "bisect_right a x = bisect_loop a x 0 (length a)"

definition intervals :: "real list \<Rightarrow> real list" where
  "intervals downbeats =
     map (\<lambda>i. downbeats ! (i + 1) - downbeats ! i) [0..<length downbeats - 1]"

definition end_times_of :: "real list \<Rightarrow> py_error + real list" where
  \<comment> \<open>\<^verbatim>\<open>downbeats[-1]\<close> raises IndexError on the empty list.\<close>
  "end_times_of downbeats =
     (let last_interval = (if intervals downbeats \<noteq> [] then last (intervals downbeats) else 0)
      in if downbeats = [] then Inl IndexError
         else Inr (drop 1 downbeats @ [last downbeats + last_interval]))"

fun resolve_sig :: "(int \<times> string) list \<Rightarrow> int \<Rightarrow> string \<Rightarrow> string" where
  \<comment> \<open>The inner loop, over the reversed change points: the first point at or before the
      measure replaces \<^verbatim>\<open>last_sig\<close> and ends the loop.\<close>
  "resolve_sig [] measure_num last_sig = last_sig"
| "resolve_sig ((m, s) # rest) measure_num last_sig =
     (if measure_num \<ge> m then s else resolve_sig rest measure_num last_sig)"

fun build_sig_map ::
  "(int \<times> string) list \<Rightarrow> nat list \<Rightarrow> string \<Rightarrow> (int \<rightharpoonup> real) \<Rightarrow> string \<times> (int \<rightharpoonup> real)" where
  \<comment> \<open>The outer loop over \<^verbatim>\<open>range(len(downbeats))\<close>; \<^verbatim>\<open>last_sig\<close> lives across the
      passes. The result is the last signature and the dictionary.\<close>
  "build_sig_map ts_points [] last_sig sig_map = (last_sig, sig_map)"
| "build_sig_map ts_points (i # rest) last_sig sig_map =
     (let measure_num = int i + 1;
          last_sig' = resolve_sig (rev ts_points) measure_num last_sig
      in build_sig_map ts_points rest last_sig'
           (sig_map(measure_num \<mapsto> sig_to_duration (Some last_sig'))))"

definition sig_map_of :: "(int \<times> string) list \<Rightarrow> real list \<Rightarrow> (int \<rightharpoonup> real)" where
  "sig_map_of ts_points downbeats =
     snd (build_sig_map ts_points [0..<length downbeats] ''4/4'' Map.empty)"

definition resolved_sig :: "(int \<times> string) list \<Rightarrow> nat \<Rightarrow> string" where
  \<comment> \<open>The value of \<^verbatim>\<open>last_sig\<close> when the pass for measure \<open>k\<close> stores its duration.\<close>
  "resolved_sig ts_points k = fst (build_sig_map ts_points [0..<k] ''4/4'' Map.empty)"

definition sig_get :: "(int \<rightharpoonup> real) \<Rightarrow> int \<Rightarrow> real" where
  \<comment> \<open>\<^verbatim>\<open>sig_map.get(m, 2.0)\<close>\<close>
  "sig_get sig_map m = (case sig_map m of None \<Rightarrow> 2 | Some d \<Rightarrow> d)"

definition note_record ::
  "(int \<Rightarrow> string) \<Rightarrow> real list \<Rightarrow> real list \<Rightarrow> (int \<rightharpoonup> real) \<Rightarrow> midi_note
     \<Rightarrow> py_error + note_row option" where
  \<comment> \<open>The body of the loop over the notes: \<open>Inr None\<close> is \<^verbatim>\<open>continue\<close>, \<open>Inr (Some r)\<close>
      appends \<open>r\<close>, \<open>Inl\<close> is the exception of a float division by zero. The times
      of a note are taken to be Python floats, for which \<^verbatim>\<open>x / 0.0\<close> raises. The first
      argument is \<^verbatim>\<open>pretty_midi.note_number_to_name\<close>.\<close>
  "note_record note_number_to_name downbeats end_times sig_map n =
     (let onset = note_start n; offset = note_end n;
          idx = int (bisect_right downbeats onset) - 1
      in if idx < 0 \<or> idx \<ge> int (length end_times) then Inr None
         else
           (let real_start = downbeats ! nat idx; real_end = end_times ! nat idx;
                real_duration = real_end - real_start;
                norm_duration = sig_get sig_map (idx + 1)
            in if real_duration = 0 then Inl ZeroDivisionError
               else
                 (let rel_onset = (onset - real_start) / real_duration;
                      rel_offset = (offset - real_start) / real_duration;
                      norm_onset = rel_onset * norm_duration;
                      norm_offset = rel_offset * norm_duration;
                      measure_num = idx + 1;
                      measure_start = foldl (+) 0 (map (sig_get sig_map) [1..measure_num - 1]);
                      measure_end = measure_start + norm_duration
                  in Inr (Some \<lparr>row_measure = measure_num,
                                row_note = note_number_to_name (pitch n),
                                row_onset = round5 (norm_onset + measure_start),
                                row_offset = round5 (norm_offset + measure_start),
                                row_measure_start = round5 measure_start,
                                row_measure_end = round5 measure_end\<rparr>))))"

fun notes_loop ::
  "(int \<Rightarrow> string) \<Rightarrow> real list \<Rightarrow> real list \<Rightarrow> (int \<rightharpoonup> real) \<Rightarrow> midi_note list
     \<Rightarrow> note_row list \<Rightarrow> py_error + note_row list" where
  "notes_loop nm downbeats end_times sig_map [] records = Inr records"
| "notes_loop nm downbeats end_times sig_map (n # rest) records =
     (case note_record nm downbeats end_times sig_map n of
        Inl e \<Rightarrow> Inl e
      | Inr None \<Rightarrow> notes_loop nm downbeats end_times sig_map rest records
      | Inr (Some r) \<Rightarrow> notes_loop nm downbeats end_times sig_map rest (records @ [r]))"

fun instruments_loop ::
  "(int \<Rightarrow> string) \<Rightarrow> real list \<Rightarrow> real list \<Rightarrow> (int \<rightharpoonup> real) \<Rightarrow> midi_note list list
     \<Rightarrow> note_row list \<Rightarrow> py_error + note_row list" where
  "instruments_loop nm downbeats end_times sig_map [] records = Inr records"
| "instruments_loop nm downbeats end_times sig_map (inst # rest) records =
     (case notes_loop nm downbeats end_times sig_map inst records of
        Inl e \<Rightarrow> Inl e
      | Inr records' \<Rightarrow> instruments_loop nm downbeats end_times sig_map rest records')"

definition extract_notes ::
  "(int \<Rightarrow> string) \<Rightarrow> real list \<Rightarrow> midi_note list list \<Rightarrow> (int \<times> string) list
     \<Rightarrow> py_error + note_row list" where
  \<comment> \<open>The arguments are \<^verbatim>\<open>note_number_to_name\<close>, the result of \<^verbatim>\<open>load_downbeats\<close>, the
      notes of \<^verbatim>\<open>pm.instruments\<close> and the change points. A frame without rows has no
      column \<^verbatim>\<open>onset\<close>, so sorting it raises KeyError. The order of rows with equal
      onsets is that of a stable sort here; no statement below depends on it.\<close>
  "extract_notes nm downbeats instruments ts_points =
     (case end_times_of downbeats of
        Inl e \<Rightarrow> Inl e
      | Inr end_times \<Rightarrow>
          (case instruments_loop nm downbeats end_times (sig_map_of ts_points downbeats)
                  instruments [] of
             Inl e \<Rightarrow> Inl e
           | Inr records \<Rightarrow>
               if records = [] then Inl KeyError else Inr (sort_key row_onset records)))"

subsection \<open>\<^verbatim>\<open>assign_time_signature\<close>\<close>

record csv_row = note_row +
  row_time_signature :: "string option"

fun get_sig_loop :: "(int \<times> string) list \<Rightarrow> int \<Rightarrow> string \<Rightarrow> string" where
  "get_sig_loop [] m sig = sig"
| "get_sig_loop ((m0, s) # rest) m sig = (if m \<ge> m0 then get_sig_loop rest m s else sig)"

definition with_time_signature :: "note_row \<Rightarrow> string option \<Rightarrow> csv_row" where
  "with_time_signature r ts =
     \<lparr>row_measure = row_measure r, row_note = row_note r, row_onset = row_onset r,
      row_offset = row_offset r, row_measure_start = row_measure_start r,
      row_measure_end = row_measure_end r, row_time_signature = ts\<rparr>"

definition assign_time_signature :: "note_row list \<Rightarrow> (int \<times> string) list \<Rightarrow> csv_row list" where
  "assign_time_signature df ts_points =
     (case ts_points of
        [] \<Rightarrow> map (\<lambda>r. with_time_signature r None) df
      | (m0, s0) # _ \<Rightarrow>
          map (\<lambda>r. with_time_signature r (Some (get_sig_loop ts_points (row_measure r) s0))) df)"

section \<open>\<^verbatim>\<open>Data_Merge_Final.py\<close>\<close>

subsection \<open>The split of the pieces\<close>

definition TRAIN_SPLIT :: real where "TRAIN_SPLIT = 5 / 10"
definition TEST_SPLIT :: real where "TEST_SPLIT = 4 / 10"

record split =
  train_pieces :: "string list"
  test_pieces :: "string list"
  val_pieces :: "string list"

definition remaining_pieces_of ::
  "(string \<Rightarrow> string) \<Rightarrow> string list \<Rightarrow> string list \<Rightarrow> string list" where
  \<comment> \<open>The first argument is \<^verbatim>\<open>os.path.normpath\<close>.\<close>
  "remaining_pieces_of normpath force_test_pieces all_pieces =
     (let normalized_forced = normpath ` set force_test_pieces
      in filter (\<lambda>p. normpath p \<notin> normalized_forced) all_pieces)"

definition split_pieces ::
  "(string \<Rightarrow> string) \<Rightarrow> string list \<Rightarrow> string list \<Rightarrow> split" where
  \<comment> \<open>\<open>all_pieces\<close> is the list after \<^verbatim>\<open>random.shuffle\<close>: any order of the pieces, one
      for each seed.\<close>
  "split_pieces normpath force_test_pieces all_pieces =
     (let remaining_pieces = remaining_pieces_of normpath force_test_pieces all_pieces;
          n = length remaining_pieces;
          n_train = nat \<lfloor>real n * TRAIN_SPLIT\<rfloor>;
          n_test = nat \<lfloor>real n * TEST_SPLIT\<rfloor>
      in \<lparr>train_pieces = take n_train remaining_pieces,
          test_pieces = force_test_pieces @ take n_test (drop n_train remaining_pieces),
          val_pieces = drop (n_train + n_test) remaining_pieces\<rparr>)"

definition files_of :: "(string \<rightharpoonup> string list) \<Rightarrow> string list \<Rightarrow> string list" where
  \<comment> \<open>\<^verbatim>\<open>list(chain.from_iterable(piece_to_files[p] for p in pieces if p in piece_to_files))\<close>\<close>
  "files_of piece_to_files pieces =
     concat (map (\<lambda>p. the (piece_to_files p)) (filter (\<lambda>p. p \<in> dom piece_to_files) pieces))"

subsection \<open>\<^verbatim>\<open>merge_perf_pure\<close>\<close>

text \<open>
  A merged record holds the two lists themselves; their serialisation by
  \<^verbatim>\<open>json.dumps\<close> is not modelled.
\<close>

record merged =
  rec_perf_csv :: string
  rec_measure :: int
  rec_x :: "(string \<times> real \<times> real \<times> real) list"
  rec_y :: "(string \<times> real \<times> real) list"

fun x_loop ::
  "real \<Rightarrow> real \<Rightarrow> csv_row list \<Rightarrow> (string \<times> real \<times> real \<times> real) list
     \<Rightarrow> (string \<times> real \<times> real \<times> real) list" where
  "x_loop measure_start measure_dur [] x_list = x_list"
| "x_loop measure_start measure_dur (row # rest) x_list =
     (let rel_onset = row_onset row - measure_start;
          duration = row_offset row - row_onset row
      in x_loop measure_start measure_dur rest
           (x_list @ [(row_note row, rel_onset, duration, measure_dur)]))"

fun y_loop ::
  "real \<Rightarrow> csv_row list \<Rightarrow> (string \<times> real \<times> real) list \<Rightarrow> (string \<times> real \<times> real) list" where
  "y_loop measure_start [] y_list = y_list"
| "y_loop measure_start (row # rest) y_list =
     (let rel_onset = row_onset row - measure_start;
          rel_offset = row_offset row - measure_start
      in y_loop measure_start rest (y_list @ [(row_note row, rel_onset, rel_offset)]))"

fun measures_loop ::
  "string \<Rightarrow> csv_row list \<Rightarrow> csv_row list \<Rightarrow> int list \<Rightarrow> merged list
     \<Rightarrow> py_error + merged list" where
  \<comment> \<open>\<^verbatim>\<open>.iloc[0]\<close> raises IndexError on a selection without rows.\<close>
  "measures_loop perf_csv perf_df pure_df [] records = Inr records"
| "measures_loop perf_csv perf_df pure_df (m # rest) records =
     (let perf_sec = filter (\<lambda>r. row_measure r = m) perf_df;
          pure_sec = filter (\<lambda>r. row_measure r = m) pure_df
      in case perf_sec of
           [] \<Rightarrow> Inl IndexError
         | first # _ \<Rightarrow>
             (let measure_start = row_measure_start first;
                  measure_end = row_measure_end first;
                  measure_dur = measure_end - measure_start
              in measures_loop perf_csv perf_df pure_df rest
                   (records @ [\<lparr>rec_perf_csv = perf_csv, rec_measure = m,
                                 rec_x = x_loop measure_start measure_dur perf_sec [],
                                 rec_y = y_loop measure_start pure_sec []\<rparr>])))"

definition common_measures :: "csv_row list \<Rightarrow> csv_row list \<Rightarrow> int list" where
  \<comment> \<open>\<^verbatim>\<open>sorted(set(perf_df['measure']).intersection(pure_df['measure']))\<close>\<close>
  "common_measures perf_df pure_df =
     sorted_list_of_set (set (map row_measure perf_df) \<inter> set (map row_measure pure_df))"

definition merge_perf_pure ::
  "string \<Rightarrow> csv_row list \<Rightarrow> csv_row list option \<Rightarrow> py_error + merged list" where
  \<comment> \<open>The second argument is the table read from \<^verbatim>\<open>perf_csv\<close>, the third the table
      read from \<^verbatim>\<open>midi_score.csv\<close> beside it, \<open>None\<close> where that file does not exist.\<close>
  "merge_perf_pure perf_csv perf_df pure =
     (case pure of
        None \<Rightarrow> Inr []
      | Some pure_df \<Rightarrow>
          measures_loop perf_csv perf_df pure_df (common_measures perf_df pure_df) [])"

subsection \<open>The closed form of a merged record\<close>

definition merged_of :: "string \<Rightarrow> csv_row list \<Rightarrow> csv_row list \<Rightarrow> int \<Rightarrow> merged" where
  \<comment> \<open>What the merge is to produce for measure \<open>m\<close>, written without the loops.\<close>
  "merged_of perf_csv perf_df pure_df m =
     (let perf_sec = filter (\<lambda>r. row_measure r = m) perf_df;
          pure_sec = filter (\<lambda>r. row_measure r = m) pure_df;
          first = hd perf_sec
      in \<lparr>rec_perf_csv = perf_csv, rec_measure = m,
          rec_x = map (\<lambda>row. (row_note row, row_onset row - row_measure_start first,
                        row_offset row - row_onset row,
                        row_measure_end first - row_measure_start first)) perf_sec,
          rec_y = map (\<lambda>row. (row_note row, row_onset row - row_measure_start first,
                        row_offset row - row_measure_start first)) pure_sec\<rparr>)"

section \<open>Example inputs\<close>

definition force_test_pieces :: "string list" where
  \<comment> \<open>The list of the script.\<close>
  "force_test_pieces =
     [''Bach/Prelude/bwv_880'', ''Brahms/Six_Pieces_op_118/2'', ''Chopin/Barcarolle'',
      ''Haydn/Keyboard_Sonatas/39-3'', ''Liszt/Ballade_2'', ''Mozart/Piano_Sonatas/12-1'',
      ''Prokofiev/Toccata'', ''Rachmaninoff/Preludes_op_32/10'',
      ''Schubert/Impromptu_op.90_D.899/2'', ''Schumann/Kreisleriana/3'']"

definition perf_example :: "csv_row list" where
  \<comment> \<open>A performance table with measures 1, 2, 3 and 5.\<close>
  "perf_example =
     [\<lparr>row_measure = 1, row_note = ''C4'', row_onset = 1 / 10, row_offset = 6 / 10,
       row_measure_start = 0, row_measure_end = 2, row_time_signature = Some ''4/4''\<rparr>,
      \<lparr>row_measure = 1, row_note = ''E4'', row_onset = 1, row_offset = 19 / 10,
       row_measure_start = 0, row_measure_end = 2, row_time_signature = Some ''4/4''\<rparr>,
      \<lparr>row_measure = 2, row_note = ''G4'', row_onset = 22 / 10, row_offset = 29 / 10,
       row_measure_start = 2, row_measure_end = 4, row_time_signature = Some ''4/4''\<rparr>,
      \<lparr>row_measure = 3, row_note = ''A4'', row_onset = 45 / 10, row_offset = 5,
       row_measure_start = 4, row_measure_end = 6, row_time_signature = Some ''4/4''\<rparr>,
      \<lparr>row_measure = 5, row_note = ''C5'', row_onset = 81 / 10, row_offset = 9,
       row_measure_start = 8, row_measure_end = 10, row_time_signature = Some ''4/4''\<rparr>]"

definition pure_example :: "csv_row list" where
  \<comment> \<open>A score table with measures 1, 3 and 4.\<close>
  "pure_example =
     [\<lparr>row_measure = 1, row_note = ''C4'', row_onset = 0, row_offset = 1 / 2,
       row_measure_start = 0, row_measure_end = 2, row_time_signature = Some ''4/4''\<rparr>,
      \<lparr>row_measure = 1, row_note = ''E4'', row_onset = 1, row_offset = 2,
       row_measure_start = 0, row_measure_end = 2, row_time_signature = Some ''4/4''\<rparr>,
      \<lparr>row_measure = 3, row_note = ''A4'', row_onset = 9 / 2, row_offset = 5,
       row_measure_start = 4, row_measure_end = 6, row_time_signature = Some ''4/4''\<rparr>,
      \<lparr>row_measure = 4, row_note = ''B4'', row_onset = 6, row_offset = 7,
       row_measure_start = 6, row_measure_end = 8, row_time_signature = Some ''4/4''\<rparr>]"

definition time_3_4 :: element where
  "time_3_4 =
     Element ''time'' [] None
       [Element ''beats'' [] (Some ''3'') [], Element ''beat-type'' [] (Some ''4'') []]"

definition measure_elem_of :: "string \<Rightarrow> element \<Rightarrow> element" where
  "measure_elem_of number time_elem =
     Element ''measure'' [(''number'', number)] None [Element ''attributes'' [] None [time_elem]]"

definition score_of :: "element list \<Rightarrow> element" where
  "score_of measure_elems =
     Element ''score-partwise'' [] None [Element ''part'' [(''id'', ''P1'')] None measure_elems]"

definition score_missing_beats :: element where
  \<comment> \<open>Measure 1 declares a time signature without a \<open>beats\<close> child; measure 2 is 3/4.\<close>
  "score_missing_beats =
     score_of
       [measure_elem_of ''1'' (Element ''time'' [] None [Element ''beat-type'' [] (Some ''4'') []]),
        measure_elem_of ''2'' time_3_4]"

definition score_bad_beats_text :: element where
  \<comment> \<open>Measure 1 has a \<open>beats\<close> child whose text is no integer; measure 2 is 3/4.\<close>
  "score_bad_beats_text =
     score_of
       [measure_elem_of ''1''
          (Element ''time'' [] None
             [Element ''beats'' [] (Some ''three'') [], Element ''beat-type'' [] (Some ''4'') []]),
        measure_elem_of ''2'' time_3_4]"

section \<open>Properties of the signature strings\<close>

lemma digit_char_props:
  "d < 10 \<Longrightarrow> is_digit (digit_char d) \<and> digit_of (digit_char d) = d"
proof -
  assume "d < 10"
  then have "d \<in> {0,1,2,3,4,5,6,7,8,9}" by auto
  then show ?thesis
    by (auto simp: is_digit_def digit_of_def digit_char_def)
qed

lemma show_nat_digits: "c \<in> set (show_nat n) \<Longrightarrow> is_digit c"
proof (induction n arbitrary: c rule: show_nat.induct)
  case (1 n)
  show ?case
  proof (cases "n < 10")
    case True
    with "1.prems" show ?thesis
      by (simp add: show_nat.simps [of n] digit_char_props)
  next
    case False
    with "1.prems" "1.IH" show ?thesis
      by (auto simp: show_nat.simps [of n] digit_char_props)
  qed
qed

lemma show_nat_nonempty: "show_nat n \<noteq> []"
  by (subst show_nat.simps) simp

lemma digits_value_snoc: "digits_value (ds @ [c]) = 10 * digits_value ds + digit_of c"
  by (simp add: digits_value_def)

lemma digits_value_show_nat: "digits_value (show_nat n) = n"
proof (induction n rule: show_nat.induct)
  case (1 n)
  show ?case
  proof (cases "n < 10")
    case True
    then show ?thesis
      by (simp add: show_nat.simps [of n] digits_value_def digit_char_props)
  next
    case False
    then have "digits_value (show_nat n) = 10 * (n div 10) + n mod 10"
      using "1.IH" by (simp add: show_nat.simps [of n] digits_value_snoc digit_char_props)
    then show ?thesis by simp
  qed
qed

lemma int_digits_all_digits:
  "\<forall>c \<in> set ds. is_digit c \<Longrightarrow> ds \<noteq> [] \<or> prev \<Longrightarrow> int_digits prev ds = Some ds"
  by (induction ds arbitrary: prev) auto

lemma parse_nat_show_nat: "parse_nat (show_nat n) = Some n"
  using int_digits_all_digits [of "show_nat n" False]
  by (simp add: parse_nat_def show_nat_digits show_nat_nonempty digits_value_show_nat)

lemma is_digit_not_space: "is_digit c \<Longrightarrow> \<not> is_space c"
  by (auto simp: is_digit_def is_space_def)

lemma strip_id:
  assumes "s \<noteq> []" "\<not> is_space (hd s)" "\<not> is_space (last s)"
  shows "strip s = s"
proof -
  from assms have "dropWhile is_space s = s"
    by (cases s) auto
  moreover from assms have "dropWhile is_space (rev s) = rev s"
    by (cases "rev s") (auto simp: last_rev [symmetric] simp del: last_rev)
  ultimately show ?thesis by (simp add: strip_def)
qed

lemma show_nat_ends:
  "is_digit (hd (show_nat n))" "is_digit (last (show_nat n))"
  using show_nat_digits [of _ n] show_nat_nonempty [of n]
  by (auto intro: hd_in_set last_in_set)

lemma py_int_show_int: "py_int (Some (show_int i)) = Inr i"
proof (cases "i < 0")
  case True
  have "\<not> is_space (last (show_nat (nat (- i))))"
    using show_nat_ends(2) [of "nat (- i)"] by (rule is_digit_not_space)
  moreover have "\<not> is_space CHR ''-''"
    by (simp add: is_space_def)
  ultimately have "strip (CHR ''-'' # show_nat (nat (- i))) = CHR ''-'' # show_nat (nat (- i))"
    using show_nat_nonempty [of "nat (- i)"]
    by (intro strip_id) simp_all
  with True show ?thesis
    by (simp add: py_int_def show_int_def parse_nat_show_nat)
next
  case False
  let ?s = "show_nat (nat i)"
  have st: "strip ?s = ?s"
    using show_nat_ends [of "nat i"] show_nat_nonempty [of "nat i"]
    by (intro strip_id) (auto simp: is_digit_not_space)
  obtain c cs where cs: "?s = c # cs"
    using show_nat_nonempty [of "nat i"] by (cases ?s) auto
  then have "is_digit c" using show_nat_ends(1) [of "nat i"] by simp
  then have "c \<noteq> CHR ''-''" "c \<noteq> CHR ''+''"
    by (auto simp: is_digit_def)
  moreover have "parse_nat (c # cs) = Some (nat i)"
    using parse_nat_show_nat [of "nat i"] cs by simp
  ultimately show ?thesis
    using False st cs by (simp add: py_int_def show_int_def)
qed

lemma split_sep_no_sep: "sep \<notin> set s \<Longrightarrow> split_sep sep s = [s]"
  by (induction s) auto

lemma split_sep_append:
  "sep \<notin> set a \<Longrightarrow> split_sep sep (a @ sep # b) = a # split_sep sep b"
  by (induction a) auto

lemma slash_not_in_show_int: "CHR ''/'' \<notin> set (show_int i)"
proof -
  have "\<not> is_digit CHR ''/''"
    by (simp add: is_digit_def)
  then have "CHR ''/'' \<notin> set (show_nat n)" for n
    using show_nat_digits by blast
  then show ?thesis
    by (simp add: show_int_def)
qed

lemma split_format_sig:
  "split_sep CHR ''/'' (format_sig b bt) = [show_int b, show_int bt]"
  by (simp add: format_sig_def split_sep_append split_sep_no_sep slash_not_in_show_int)

section \<open>Properties of the downbeat loader\<close>

lemma load_times_prefix: "\<exists>more. load_times py_float file_lines acc = acc @ more"
proof (induction file_lines arbitrary: acc)
  case Nil
  then show ?case by simp
next
  case (Cons line rest)
  show ?case
  proof (cases "3 \<le> length (split_ws (strip line)) \<and> contains ''db'' (split_ws (strip line) ! 2)")
    case False
    with Cons.IH [of acc] show ?thesis by (auto simp: Let_def)
  next
    case True
    show ?thesis
    proof (cases "py_float (split_ws (strip line) ! 0)")
      case None
      with True Cons.IH [of acc] show ?thesis by (auto simp: Let_def)
    next
      case (Some t)
      from Cons.IH [of "acc @ [t]"] obtain more
        where "load_times py_float rest (acc @ [t]) = (acc @ [t]) @ more" by blast
      with True Some show ?thesis by (auto simp: Let_def)
    qed
  qed
qed

lemma load_downbeats_sorted:
  "sorted (load_downbeats py_float file_lines)"
  "0 \<in> set (load_downbeats py_float file_lines)"
  "load_downbeats py_float file_lines \<noteq> []"
proof -
  obtain more where m: "load_times py_float file_lines [0] = [0] @ more"
    using load_times_prefix [of py_float file_lines "[0]"] by blast
  show "sorted (load_downbeats py_float file_lines)"
    by (simp add: load_downbeats_def)
  have "set (load_downbeats py_float file_lines) = set ([0] @ more)"
    unfolding load_downbeats_def m by (rule set_sort)
  then show z: "0 \<in> set (load_downbeats py_float file_lines)"
    by simp
  from z show "load_downbeats py_float file_lines \<noteq> []"
    by auto
qed

section \<open>Properties of the bisection\<close>

lemma bisect_loop_stop: "\<not> lo < hi \<Longrightarrow> bisect_loop a x lo hi = lo"
  by (simp add: bisect_loop.simps [of a x lo hi])

lemma bisect_loop_step:
  "lo < hi \<Longrightarrow> bisect_loop a x lo hi =
     (if x < a ! ((lo + hi) div 2) then bisect_loop a x lo ((lo + hi) div 2)
      else bisect_loop a x ((lo + hi) div 2 + 1) hi)"
  by (simp add: bisect_loop.simps [of a x lo hi] Let_def)





lemma bisect_loop_bounds:
  "lo \<le> hi \<Longrightarrow> lo \<le> bisect_loop a x lo hi \<and> bisect_loop a x lo hi \<le> hi"
proof (induction a x lo hi rule: bisect_loop.induct)
  case (1 a x lo hi)
  show ?case
  proof (cases "lo < hi")
    case False
    with "1.prems" show ?thesis by (simp add: bisect_loop_stop)
  next
    case True
    let ?mid = "(lo + hi) div 2"
    from True have mid: "lo \<le> ?mid" "?mid < hi" by auto
    show ?thesis
    proof (cases "x < a ! ?mid")
      case True
      with "1.IH"(1) [OF \<open>lo < hi\<close> refl True] mid \<open>lo < hi\<close> show ?thesis
        by (simp add: bisect_loop_step)
    next
      case False
      with "1.IH"(2) [OF \<open>lo < hi\<close> refl False] mid \<open>lo < hi\<close> show ?thesis
        by (simp add: bisect_loop_step)
    qed
  qed
qed

lemma bisect_loop_sorted:
  "sorted a \<Longrightarrow> lo \<le> hi \<Longrightarrow> hi \<le> length a \<Longrightarrow>
   (\<forall>i < lo. a ! i \<le> x) \<Longrightarrow> (\<forall>i. hi \<le> i \<and> i < length a \<longrightarrow> x < a ! i) \<Longrightarrow>
   (\<forall>i < bisect_loop a x lo hi. a ! i \<le> x) \<and>
   (\<forall>i. bisect_loop a x lo hi \<le> i \<and> i < length a \<longrightarrow> x < a ! i)"
proof (induction a x lo hi rule: bisect_loop.induct)
  case (1 a x lo hi)
  show ?case
  proof (cases "lo < hi")
    case False
    with "1.prems" show ?thesis by (simp add: bisect_loop_stop)
  next
    case True
    let ?mid = "(lo + hi) div 2"
    from True have mid: "lo \<le> ?mid" "?mid < hi" by auto
    show ?thesis
    proof (cases "x < a ! ?mid")
      case lt: True
      have "\<forall>i. ?mid \<le> i \<and> i < length a \<longrightarrow> x < a ! i"
      proof (intro allI impI)
        fix i assume "?mid \<le> i \<and> i < length a"
        then have "a ! ?mid \<le> a ! i" using \<open>sorted a\<close> by (simp add: sorted_nth_mono)
        with lt show "x < a ! i" by simp
      qed
      with "1.IH"(1) [OF True refl lt] "1.prems" mid True lt show ?thesis
        by (simp add: bisect_loop_step)
    next
      case ge: False
      have "\<forall>i < ?mid + 1. a ! i \<le> x"
      proof (intro allI impI)
        fix i assume "i < ?mid + 1"
        then have "a ! i \<le> a ! ?mid" using \<open>sorted a\<close> mid "1.prems"(3)
          by (simp add: sorted_nth_mono)
        with ge show "a ! i \<le> x" by simp
      qed
      with "1.IH"(2) [OF True refl ge] "1.prems" mid True ge show ?thesis
        by (simp add: bisect_loop_step)
    qed
  qed
qed

lemma bisect_right_sorted:
  assumes "sorted a"
  shows "bisect_right a x \<le> length a"
    and "\<forall>i < bisect_right a x. a ! i \<le> x"
    and "\<forall>i. bisect_right a x \<le> i \<and> i < length a \<longrightarrow> x < a ! i"
  using bisect_loop_bounds [of 0 "length a" a x] bisect_loop_sorted [OF assms, of 0 "length a" x]
  by (simp_all add: bisect_right_def)

section \<open>Properties of the signature map\<close>

lemma sig_to_duration_44: "sig_to_duration (Some ''4/4'') = 2"
    by (simp add: sig_to_duration_def py_int_def strip_def is_space_def parse_nat_def
        is_digit_def digits_value_def digit_of_def)

lemma build_sig_map_append:
  "build_sig_map ts (xs @ ys) l m =
     build_sig_map ts ys (fst (build_sig_map ts xs l m)) (snd (build_sig_map ts xs l m))"
  by (induction xs arbitrary: l m) (simp_all add: Let_def)

lemma build_sig_map_Suc:
  "build_sig_map ts [0..<Suc k] l m =
     (let l' = fst (build_sig_map ts [0..<k] l m);
          l'' = resolve_sig (rev ts) (int k + 1) l'
      in (l'', (snd (build_sig_map ts [0..<k] l m))(int k + 1 \<mapsto> sig_to_duration (Some l''))))"
  by (simp add: build_sig_map_append Let_def)

lemma sig_map_lookup:
  "1 \<le> k \<Longrightarrow> k \<le> n \<Longrightarrow>
   snd (build_sig_map ts [0..<n] l m) (int k) =
     Some (sig_to_duration (Some (fst (build_sig_map ts [0..<k] l m))))"
proof (induction n)
  case 0
  then show ?case by simp
next
  case (Suc n)
  show ?case
  proof (cases "k = Suc n")
    case True
    then show ?thesis
      by (simp add: build_sig_map_Suc Let_def del: upt_Suc)
  next
    case False
    with Suc.prems have "k \<le> n" by simp
    from Suc.IH [OF Suc.prems(1) this] False \<open>k \<le> n\<close> show ?thesis
      by (simp add: build_sig_map_Suc Let_def del: upt_Suc)
  qed
qed

lemma sig_map_of_lookup:
  "1 \<le> k \<Longrightarrow> k \<le> length downbeats \<Longrightarrow>
   sig_map_of ts downbeats (int k) = Some (sig_to_duration (Some (resolved_sig ts k)))"
  by (simp add: sig_map_of_def resolved_sig_def sig_map_lookup)

lemma resolve_sig_before_all:
  "(\<forall>(m, s) \<in> set ps. k < m) \<Longrightarrow> resolve_sig ps k l = l"
  by (induction ps k l rule: resolve_sig.induct) auto

lemma last_sig_before_all:
  "(\<forall>(m, s) \<in> set ts. int k < m) \<Longrightarrow> fst (build_sig_map ts [0..<k] l sm) = l"
proof (induction k)
  case 0
  then show ?case by simp
next
  case (Suc k)
  from Suc.prems have "\<forall>(m, s) \<in> set ts. int k < m" by fastforce
  from Suc.IH [OF this] have l: "fst (build_sig_map ts [0..<k] l sm) = l" .
  from Suc.prems have "\<forall>(m, s) \<in> set (rev ts). int k + 1 < m" by fastforce
  from resolve_sig_before_all [OF this] l show ?case
    by (simp add: build_sig_map_Suc Let_def del: upt_Suc)
qed

lemma resolved_sig_before_all:
  "(\<forall>(m, s) \<in> set ts. int k < m) \<Longrightarrow> resolved_sig ts k = ''4/4''"
  by (simp add: resolved_sig_def last_sig_before_all)

lemma get_sig_loop_before_first:
  "m < m0 \<Longrightarrow> get_sig_loop ((m0, s0) # rest) m s0 = s0"
  by simp

lemma sig_to_duration_34: "sig_to_duration (Some ''3/4'') = 3 / 2"
  by (simp add: sig_to_duration_def py_int_def strip_def is_space_def parse_nat_def
      is_digit_def digits_value_def digit_of_def)

text \<open>
  C8. The normalized duration of a measure is a function of its signature alone: the
  entry of measure \<open>k\<close> in the signature map is \<^verbatim>\<open>sig_to_duration\<close> of the signature
  resolved for \<open>k\<close>, whatever the downbeat times are. For the signature string that
  \<^verbatim>\<open>extract_time_signatures\<close> formats from a pair of beats and beat unit, with a beat
  unit other than 0, it is (60/120) * beats * (4/beat unit). A 4/4 measure normalizes to
  2 and a 3/4 measure to 1.5.
\<close>

theorem sig_to_duration_formula:
  "(1 \<le> k \<and> k \<le> length downbeats \<longrightarrow>
      sig_map_of ts_points downbeats (int k) =
        Some (sig_to_duration (Some (resolved_sig ts_points k)))) \<and>
   (bt \<noteq> 0 \<longrightarrow>
      sig_to_duration (Some (format_sig b bt)) = (60 / 120) * of_int b * (4 / of_int bt)) \<and>
   sig_to_duration (Some ''4/4'') = 2 \<and>
   sig_to_duration (Some ''3/4'') = 3 / 2"
proof -
  have "sig_to_duration (Some (format_sig b bt)) = (60 / 120) * of_int b * (4 / of_int bt)"
    if "bt \<noteq> 0"
    using that by (simp add: sig_to_duration_def split_format_sig py_int_show_int)
  moreover have "sig_map_of ts_points downbeats (int k) =
        Some (sig_to_duration (Some (resolved_sig ts_points k)))"
    if "1 \<le> k \<and> k \<le> length downbeats"
    using that by (simp add: sig_map_of_lookup)
  ultimately show ?thesis
    using sig_to_duration_44 sig_to_duration_34 by blast
qed

theorem sig_to_duration_formula_witness:
  "(1 :: nat) \<le> 2 \<and> 2 \<le> length [0, 2, 4 :: real] \<and>
   sig_map_of [(1, format_sig 6 8)] [0, 2, 4] (int 2) = Some (3 / 2) \<and>
   (8 :: int) \<noteq> 0 \<and> sig_to_duration (Some (format_sig 6 8)) = 3 / 2"
proof -
  have r: "resolved_sig [(1, format_sig 6 8)] 2 = format_sig 6 8"
    by (simp add: resolved_sig_def upt_rec numeral_2_eq_2 Let_def)
  have h: "(1 :: nat) \<le> 2 \<and> 2 \<le> length [0, 2, 4 :: real]"
    by simp
  from sig_to_duration_formula [of 2 "[0, 2, 4]" "[(1, format_sig 6 8)]" 8 6] h r
  show ?thesis by simp
qed

section \<open>Properties of the loops over the notes\<close>





lemma notes_loop_rows:
  "notes_loop nm db ets sm ns acc = Inr rows \<Longrightarrow>
   set rows = set acc \<union> {r. \<exists>n \<in> set ns. note_record nm db ets sm n = Inr (Some r)}"
proof (induction ns arbitrary: acc)
  case Nil
  then show ?case by auto
next
  case (Cons n ns)
  show ?case
  proof (cases "note_record nm db ets sm n")
    case (Inl e)
    with Cons.prems show ?thesis by simp
  next
    case (Inr x)
    show ?thesis
    proof (cases x)
      case None
      with Inr Cons.prems have "notes_loop nm db ets sm ns acc = Inr rows" by simp
      from Cons.IH [OF this] Inr None show ?thesis by auto
    next
      case (Some r)
      with Inr Cons.prems have "notes_loop nm db ets sm ns (acc @ [r]) = Inr rows" by simp
      from Cons.IH [OF this] Inr Some show ?thesis by auto
    qed
  qed
qed

lemma instruments_loop_rows:
  "instruments_loop nm db ets sm insts acc = Inr rows \<Longrightarrow>
   set rows = set acc \<union> {r. \<exists>n \<in> set (concat insts). note_record nm db ets sm n = Inr (Some r)}"
proof (induction insts arbitrary: acc)
  case Nil
  then show ?case by auto
next
  case (Cons inst insts)
  from Cons.prems obtain mid where mid: "notes_loop nm db ets sm inst acc = Inr mid"
    and rest: "instruments_loop nm db ets sm insts mid = Inr rows"
    by (auto split: sum.splits)
  from notes_loop_rows [OF mid] Cons.IH [OF rest] show ?case by auto
qed

lemma extract_notes_rows:
  assumes "extract_notes nm db insts ts = Inr rows"
  shows "\<exists>ets. end_times_of db = Inr ets \<and>
     set rows = {r. \<exists>n \<in> set (concat insts).
                  note_record nm db ets (sig_map_of ts db) n = Inr (Some r)}"
proof -
  from assms obtain ets recs where e: "end_times_of db = Inr ets"
    and l: "instruments_loop nm db ets (sig_map_of ts db) insts [] = Inr recs"
    and r: "rows = sort_key row_onset recs"
    by (auto simp: extract_notes_def split: sum.splits if_splits)
  from instruments_loop_rows [OF l] r e show ?thesis by auto
qed





section \<open>Evaluation on the downbeats 0, 2, 4\<close>

lemma bisect_eval: "bisect_right [0, 2, 4] (5 / 2) = 2"
  by (simp add: bisect_right_def bisect_loop.simps)

lemma end_times_eval: "end_times_of [0, 2, 4] = Inr [2, 4, 6]"
  by (simp add: end_times_of_def intervals_def)

lemma upt3: "[0..<3] = [0, 1, 2]"
  by (simp add: upt_rec)

lemma sig_map_eval:
  "sig_map_of [(1, ''4/4'')] [0, 2, 4] = [1 \<mapsto> 2, 2 \<mapsto> 2, 3 \<mapsto> 2]"
  by (simp add: sig_map_of_def upt3 sig_to_duration_44)

lemma sig_map_eval0:
  "sig_map_of [] [0, 2, 4] = [1 \<mapsto> 2, 2 \<mapsto> 2, 3 \<mapsto> 2]"
  by (simp add: sig_map_of_def upt3 sig_to_duration_44)

lemma round5_int: "round5 (of_int k) = of_int k"
proof -
  have e: "of_int k * (100000::real) = of_int (k * 100000)" by simp
  have f: "\<lfloor>of_int k * (100000::real)\<rfloor> = k * 100000"
    unfolding e by (rule floor_of_int)
  have "round_half_even (of_int k * 100000) = k * 100000"
    unfolding round_half_even_def Let_def f by simp
  then show ?thesis by (simp add: round5_def)
qed

lemma round5_evals: "round5 (5 / 2) = 5 / 2" "round5 3 = 3" "round5 2 = 2" "round5 4 = 4"
  using round5_int [of 2] round5_int [of 3] round5_int [of 4]
  by (simp_all add: round5_def round_half_even_def)

lemma note_eval:
  "note_record nm [0, 2, 4] [2, 4, 6] [1 \<mapsto> 2, 2 \<mapsto> 2, 3 \<mapsto> 2]
      \<lparr>pitch = p, note_start = 5 / 2, note_end = 3\<rparr> =
     Inr (Some \<lparr>row_measure = 2, row_note = nm p, row_onset = 5 / 2, row_offset = 3,
           row_measure_start = 2, row_measure_end = 4\<rparr>)"
  by (simp add: note_record_def bisect_eval sig_get_def Let_def round5_evals upto_rec1)

lemma sig_to_duration_neg44: "sig_to_duration (Some ''-4/4'') = - 2"
  by (simp add: sig_to_duration_def py_int_def strip_def is_space_def parse_nat_def
        is_digit_def digits_value_def digit_of_def)

lemmas extract_notes_eval =
  extract_notes_def end_times_of_def intervals_def sig_map_of_def upt3
  sig_to_duration_44 sig_to_duration_neg44 note_record_def bisect_right_def bisect_loop.simps
  sig_get_def Let_def round5_def round_half_even_def upto_rec1

section \<open>Properties of \<^verbatim>\<open>extract_notes\<close>\<close>

text \<open>
  C4. With the downbeats 0, 2, 4, a score that is 4/4 throughout and one note from 2.5 s
  to 3 s, the table has one row: measure 2, onset 2.5, offset 3, measure start 2 and
  measure end 4. The pitch and its name are arbitrary.
\<close>

theorem extract_notes_round_trip:
  "extract_notes nm [0, 2, 4] [[\<lparr>pitch = p, note_start = 5 / 2, note_end = 3\<rparr>]] [(1, ''4/4'')] =
     Inr [\<lparr>row_measure = 2, row_note = nm p, row_onset = 5 / 2, row_offset = 3,
           row_measure_start = 2, row_measure_end = 4\<rparr>]"
  by (simp add: extract_notes_def end_times_eval sig_map_eval note_eval)

theorem extract_notes_round_trip_witness:
  "extract_notes show_int [0, 2, 4] [[\<lparr>pitch = 60, note_start = 5 / 2, note_end = 3\<rparr>]]
     [(1, ''4/4'')] =
     Inr [\<lparr>row_measure = 2, row_note = show_int 60, row_onset = 5 / 2, row_offset = 3,
           row_measure_start = 2, row_measure_end = 4\<rparr>]"
  by (rule extract_notes_round_trip)

lemma note_record_span:
  assumes "note_record nm db ets sm n = Inr (Some r)"
  shows "1 \<le> row_measure r"
    and "row_measure_start r = round5 (foldl (+) 0 (map (sig_get sm) [1..row_measure r - 1]))"
    and "row_measure_end r =
           round5 (foldl (+) 0 (map (sig_get sm) [1..row_measure r - 1]) + sig_get sm (row_measure r))"
  using assms by (auto simp: note_record_def Let_def split: if_splits)

lemma prefix_sum_step:
  "1 \<le> k \<Longrightarrow> foldl (+) 0 (map f [1..k]) = foldl (+) (0 :: real) (map f [1..k - 1]) + f k"
  by (simp add: upto_rec2 [of 1 k])

lemma round_half_even_bounds:
  "\<lfloor>y\<rfloor> \<le> round_half_even y" "round_half_even y \<le> \<lfloor>y\<rfloor> + 1"
  by (simp_all add: round_half_even_def Let_def)

lemma round_half_even_mono: "x \<le> y \<Longrightarrow> round_half_even x \<le> round_half_even y"
proof (cases "\<lfloor>x\<rfloor> = \<lfloor>y\<rfloor>")
  case True
  assume "x \<le> y"
  then have "x - of_int \<lfloor>y\<rfloor> \<le> y - of_int \<lfloor>y\<rfloor>" by simp
  with True show ?thesis
    by (auto simp: round_half_even_def Let_def)
next
  case False
  assume "x \<le> y"
  then have "\<lfloor>x\<rfloor> \<le> \<lfloor>y\<rfloor>" by (rule floor_mono)
  with False have "\<lfloor>x\<rfloor> + 1 \<le> \<lfloor>y\<rfloor>" by simp
  with round_half_even_bounds(2) [of x] round_half_even_bounds(1) [of y]
  show ?thesis by linarith
qed

lemma round5_mono: "x \<le> y \<Longrightarrow> round5 x \<le> round5 y"
proof -
  assume "x \<le> y"
  then have "x * 100000 \<le> y * 100000" by simp
  from round_half_even_mono [OF this] show ?thesis
    by (simp add: round5_def divide_right_mono)
qed

text \<open>
  C7. In the table of one file, for two rows in consecutive measures, the measure end of
  the earlier measure is the measure start of the later one, both as rounded. The start
  of the later measure is at least the start of the earlier one when the normalized
  duration of the earlier measure is not negative; the code takes the beats count of a
  signature as it is written, so a duration can be negative.
\<close>

theorem measure_spans_chain:
  assumes "extract_notes nm downbeats instruments ts_points = Inr rows"
    and "r1 \<in> set rows" and "r2 \<in> set rows"
    and "row_measure r2 = row_measure r1 + 1"
  shows "row_measure_end r1 = row_measure_start r2 \<and>
    (0 \<le> sig_get (sig_map_of ts_points downbeats) (row_measure r1) \<longrightarrow>
       row_measure_start r1 \<le> row_measure_start r2)"
proof -
  let ?sm = "sig_map_of ts_points downbeats"
  let ?pre = "\<lambda>k. foldl (+) 0 (map (sig_get ?sm) [1..k])"
  from extract_notes_rows [OF assms(1)] assms(2,3)
  obtain ets n1 n2 where n1: "note_record nm downbeats ets ?sm n1 = Inr (Some r1)"
    and n2: "note_record nm downbeats ets ?sm n2 = Inr (Some r2)"
    by auto
  note s1 = note_record_span [OF n1] and s2 = note_record_span [OF n2]
  have "?pre (row_measure r1) = ?pre (row_measure r1 - 1) + sig_get ?sm (row_measure r1)"
    using s1(1) by (rule prefix_sum_step)
  then have eq: "row_measure_end r1 = row_measure_start r2"
    using s1(3) s2(2) assms(4) by simp
  have "row_measure_start r1 \<le> row_measure_end r1"
    if "0 \<le> sig_get ?sm (row_measure r1)"
    unfolding s1(2,3) using that by (intro round5_mono) simp
  with eq show ?thesis by simp
qed

theorem measure_spans_chain_witness:
  "extract_notes show_int [0, 2, 4]
     [[\<lparr>pitch = 60, note_start = 1 / 2, note_end = 1\<rparr>,
       \<lparr>pitch = 64, note_start = 5 / 2, note_end = 3\<rparr>]] [(1, ''4/4'')] =
   Inr [\<lparr>row_measure = 1, row_note = show_int 60, row_onset = 1 / 2, row_offset = 1,
         row_measure_start = 0, row_measure_end = 2\<rparr>,
        \<lparr>row_measure = 2, row_note = show_int 64, row_onset = 5 / 2, row_offset = 3,
         row_measure_start = 2, row_measure_end = 4\<rparr>] \<and>
   row_measure_end \<lparr>row_measure = 1, row_note = show_int 60, row_onset = 1 / 2, row_offset = 1,
         row_measure_start = 0, row_measure_end = 2\<rparr> =
   row_measure_start \<lparr>row_measure = 2, row_note = show_int 64, row_onset = 5 / 2, row_offset = 3,
         row_measure_start = 2, row_measure_end = 4\<rparr> \<and>
   row_measure_start \<lparr>row_measure = 1, row_note = show_int 60, row_onset = 1 / 2, row_offset = 1,
         row_measure_start = 0, row_measure_end = 2\<rparr> \<le>
   row_measure_start \<lparr>row_measure = 2, row_note = show_int 64, row_onset = 5 / 2, row_offset = 3,
         row_measure_start = 2, row_measure_end = 4\<rparr>"
proof -
  let ?r1 = "\<lparr>row_measure = 1, row_note = show_int 60, row_onset = 1 / 2, row_offset = 1,
         row_measure_start = 0, row_measure_end = 2\<rparr>"
  let ?r2 = "\<lparr>row_measure = 2, row_note = show_int 64, row_onset = 5 / 2, row_offset = 3,
         row_measure_start = 2, row_measure_end = 4\<rparr>"
  have e: "extract_notes show_int [0, 2, 4]
     [[\<lparr>pitch = 60, note_start = 1 / 2, note_end = 1\<rparr>,
       \<lparr>pitch = 64, note_start = 5 / 2, note_end = 3\<rparr>]] [(1, ''4/4'')] = Inr [?r1, ?r2]"
    by (simp add: extract_notes_eval)
  have m1: "?r1 \<in> set [?r1, ?r2]" and m2: "?r2 \<in> set [?r1, ?r2]"
    by simp_all
  have s: "row_measure ?r2 = row_measure ?r1 + 1"
    by simp
  have d: "0 \<le> sig_get (sig_map_of [(1, ''4/4'')] [0, 2, 4]) (row_measure ?r1)"
    by (simp add: sig_map_eval sig_get_def)
  from measure_spans_chain [OF e m1 m2 s] d e show ?thesis
    by blast
qed

text \<open>
  C7, the case that the statement above leaves out: with the signature \<open>-4/4\<close> from
  measure 1 on, every measure has the duration -2, so measure 1 starts at 0 and measure 2
  at -2. The ends and starts still meet; the starts decrease.
\<close>

theorem measure_spans_chain_counterexample:
  "extract_notes show_int [0, 1, 2]
     [[\<lparr>pitch = 60, note_start = 1 / 2, note_end = 1\<rparr>,
       \<lparr>pitch = 64, note_start = 3 / 2, note_end = 2\<rparr>]] [(1, ''-4/4'')] =
   Inr [\<lparr>row_measure = 2, row_note = show_int 64, row_onset = - 3, row_offset = - 4,
         row_measure_start = - 2, row_measure_end = - 4\<rparr>,
        \<lparr>row_measure = 1, row_note = show_int 60, row_onset = - 1, row_offset = - 2,
         row_measure_start = 0, row_measure_end = - 2\<rparr>] \<and>
   (- 2 :: real) < 0"
  by (simp add: extract_notes_eval)











section \<open>Properties of the time signatures\<close>

text \<open>
  C2. For a measure that precedes every change point, the signature that
  \<^verbatim>\<open>extract_notes\<close> resolves is 4/4 and its normalized duration is 2; with an empty list
  of change points this holds for every measure. The column \<open>time_signature\<close> that
  \<^verbatim>\<open>assign_time_signature\<close> adds is a different matter: with an empty list it is
  \<open>None\<close> in every row, and with a non-empty list a row before the first change point
  gets the signature of the first change point.
\<close>

theorem default_signature:
  "(1 \<le> k \<and> k \<le> length downbeats \<and> (\<forall>(m, s) \<in> set ts_points. int k < m) \<longrightarrow>
      resolved_sig ts_points k = ''4/4'' \<and> sig_map_of ts_points downbeats (int k) = Some 2) \<and>
   (1 \<le> k \<and> k \<le> length downbeats \<longrightarrow>
      resolved_sig [] k = ''4/4'' \<and> sig_map_of [] downbeats (int k) = Some 2) \<and>
   map row_time_signature (assign_time_signature df []) = map (\<lambda>r. None) df \<and>
   (row_measure r < m0 \<longrightarrow>
      map row_time_signature (assign_time_signature [r] ((m0, s0) # rest)) = [Some s0])"
proof -
  have a: "resolved_sig ts k = ''4/4'' \<and> sig_map_of ts downbeats (int k) = Some 2"
    if "1 \<le> k" "k \<le> length downbeats" "\<forall>(m, s) \<in> set ts. int k < m" for ts
    using sig_map_of_lookup [OF that(1,2), of ts] resolved_sig_before_all [OF that(3)]
    by (simp add: sig_to_duration_44)
  have b: "resolved_sig [] k = ''4/4'' \<and> sig_map_of [] downbeats (int k) = Some 2"
    if "1 \<le> k" "k \<le> length downbeats"
    using a [OF that, of "[]"] by simp
  have c: "map row_time_signature (assign_time_signature df []) = map (\<lambda>r. None) df"
    by (simp add: assign_time_signature_def with_time_signature_def comp_def)
  have d: "map row_time_signature (assign_time_signature [r] ((m0, s0) # rest)) = [Some s0]"
    if "row_measure r < m0"
    using that by (simp add: assign_time_signature_def with_time_signature_def)
  from a b c d show ?thesis by blast
qed

theorem default_signature_witness:
  "(1 :: nat) \<le> 1 \<and> 1 \<le> length [0, 2, 4 :: real] \<and>
   resolved_sig [(2, ''3/4'')] 1 = ''4/4'' \<and>
   sig_map_of [(2, ''3/4'')] [0, 2, 4] 1 = Some 2 \<and>
   resolved_sig [] 1 = ''4/4'' \<and> sig_map_of [] [0, 2, 4] 1 = Some 2 \<and>
   map row_time_signature (assign_time_signature
     [\<lparr>row_measure = 1, row_note = ''C4'', row_onset = 0, row_offset = 1 / 2,
       row_measure_start = 0, row_measure_end = 2\<rparr>] [(2, ''3/4'')]) = [Some ''3/4'']"
proof -
  have h: "(1 :: nat) \<le> 1 \<and> 1 \<le> length [0, 2, 4 :: real] \<and>
      (\<forall>(m, s) \<in> set [(2 :: int, ''3/4'')]. int 1 < m)"
    by simp
  have g: "row_measure \<lparr>row_measure = 1, row_note = ''C4'', row_onset = 0, row_offset = 1 / 2,
       row_measure_start = 0, row_measure_end = 2\<rparr> < 2"
    by simp
  from default_signature [of 1 "[0, 2, 4]" "[(2, ''3/4'')]" "[]"
      "\<lparr>row_measure = 1, row_note = ''C4'', row_onset = 0, row_offset = 1 / 2,
        row_measure_start = 0, row_measure_end = 2\<rparr>" 2 "''3/4''" "[]"] h g
  show ?thesis by simp
qed

text \<open>
  C2, the assigned column with an empty list of change points: it is \<open>None\<close> in the
  row of measure 1, not 4/4.
\<close>

theorem assigned_signature_counterexample:
  "map row_time_signature (assign_time_signature
     [\<lparr>row_measure = 1, row_note = ''C4'', row_onset = 0, row_offset = 1 / 2,
       row_measure_start = 0, row_measure_end = 2\<rparr>] []) = [None]"
  by (simp add: assign_time_signature_def with_time_signature_def)

lemmas xml_eval =
  extract_time_signatures_def findall_descendants_def score_of_def measure_elem_of_def
  time_3_4_def measure_point_def find_path2_def find_child_def text_of_def Let_def
  py_int_def strip_def is_space_def parse_nat_def is_digit_def digits_value_def digit_of_def

lemma format_3_4: "format_sig 3 4 = ''3/4''"
  by code_simp

text \<open>
  C3. A \<open>time\<close> element without a \<open>beats\<close> child: the read of \<^verbatim>\<open>.text\<close> stands
  before the \<^verbatim>\<open>try\<close>, so the whole extraction raises AttributeError and the
  well-formed measure 2 is lost with it.
\<close>

theorem extract_time_signatures_missing_beats:
  "extract_time_signatures score_missing_beats = Inl AttributeError"
  by (simp add: score_missing_beats_def xml_eval)

text \<open>
  A text that is no integer is inside the \<^verbatim>\<open>try\<close>: only that measure is skipped.
\<close>

lemma extract_time_signatures_bad_text:
  "extract_time_signatures score_bad_beats_text = Inr [(2, ''3/4'')]"
  by (simp add: score_bad_beats_text_def xml_eval format_3_4)

section \<open>Properties of the split\<close>

lemma remaining_not_forced:
  "p \<in> set (remaining_pieces_of normpath force all_pieces) \<Longrightarrow> p \<notin> set force"
  by (auto simp: remaining_pieces_of_def)

text \<open>
  C9. Whatever the order the shuffle leaves the pieces in, and whatever the piece set
  and the force-test list are, a piece of the force-test list is in the test partition
  and in neither the train nor the validation partition.
\<close>

theorem force_test_pieces_in_test:
  "p \<in> set force \<Longrightarrow>
     p \<in> set (test_pieces (split_pieces normpath force all_pieces)) \<and>
     p \<notin> set (train_pieces (split_pieces normpath force all_pieces)) \<and>
     p \<notin> set (val_pieces (split_pieces normpath force all_pieces))"
proof -
  assume p: "p \<in> set force"
  let ?rem = "remaining_pieces_of normpath force all_pieces"
  have notrem: "p \<notin> set ?rem"
    using p remaining_not_forced by blast
  have t: "p \<notin> set (take k ?rem)" for k
    using notrem by (meson in_set_takeD)
  have d: "p \<notin> set (drop k ?rem)" for k
    using notrem by (meson in_set_dropD)
  show ?thesis
    using p t d by (simp add: split_pieces_def Let_def)
qed

theorem force_test_pieces_in_test_witness:
  "''Chopin/Barcarolle'' \<in> set force_test_pieces \<and>
   ''Chopin/Barcarolle'' \<in> set (test_pieces (split_pieces id force_test_pieces
       [''Bach/Fugue/bwv_846'', ''Chopin/Barcarolle'', ''Ravel/Ondine''])) \<and>
   ''Chopin/Barcarolle'' \<notin> set (train_pieces (split_pieces id force_test_pieces
       [''Bach/Fugue/bwv_846'', ''Chopin/Barcarolle'', ''Ravel/Ondine''])) \<and>
   ''Chopin/Barcarolle'' \<notin> set (val_pieces (split_pieces id force_test_pieces
       [''Bach/Fugue/bwv_846'', ''Chopin/Barcarolle'', ''Ravel/Ondine'']))"
proof -
  have h: "''Chopin/Barcarolle'' \<in> set force_test_pieces"
    by (simp add: force_test_pieces_def)
  show ?thesis
    using h force_test_pieces_in_test [OF h, of id
       "[''Bach/Fugue/bwv_846'', ''Chopin/Barcarolle'', ''Ravel/Ondine'']"]
    by blast
qed

section \<open>Properties of the merge\<close>

lemma x_loop_map:
  "x_loop ms md rows acc =
     acc @ map (\<lambda>row. (row_note row, row_onset row - ms, row_offset row - row_onset row, md)) rows"
  by (induction rows arbitrary: acc) (simp_all add: Let_def)

lemma y_loop_map:
  "y_loop ms rows acc =
     acc @ map (\<lambda>row. (row_note row, row_onset row - ms, row_offset row - ms)) rows"
  by (induction rows arbitrary: acc) (simp_all add: Let_def)

lemma measures_loop_map:
  "set ms \<subseteq> row_measure ` set perf_df \<Longrightarrow>
   measures_loop perf_csv perf_df pure_df ms acc =
     Inr (acc @ map (merged_of perf_csv perf_df pure_df) ms)"
proof (induction ms arbitrary: acc)
  case Nil
  then show ?case by simp
next
  case (Cons m ms)
  from Cons.prems have "m \<in> row_measure ` set perf_df" by simp
  then have "filter (\<lambda>r. row_measure r = m) perf_df \<noteq> []"
    by (auto simp: filter_empty_conv)
  then obtain first rest where fr: "filter (\<lambda>r. row_measure r = m) perf_df = first # rest"
    by (cases "filter (\<lambda>r. row_measure r = m) perf_df") auto
  from Cons.prems have sub: "set ms \<subseteq> row_measure ` set perf_df" by simp
  show ?case
    using fr Cons.IH [OF sub]
    by (simp add: Let_def merged_of_def x_loop_map y_loop_map)
qed

lemma merge_closed_form:
  "merge_perf_pure perf_csv perf_df (Some pure_df) =
     Inr (map (merged_of perf_csv perf_df pure_df) (common_measures perf_df pure_df))"
proof -
  have "set (common_measures perf_df pure_df) \<subseteq> row_measure ` set perf_df"
    by (auto simp: common_measures_def)
  from measures_loop_map [OF this, of perf_csv pure_df "[]"]
  show ?thesis by (simp add: merge_perf_pure_def)
qed

lemma rec_measure_merged_of: "rec_measure (merged_of c p q m) = m"
  by (simp add: merged_of_def Let_def)

lemma common_measures_example: "common_measures perf_example pure_example = [1, 3]"
proof -
  have "set (map row_measure perf_example) \<inter> set (map row_measure pure_example) = {1, 3}"
    by (auto simp: perf_example_def pure_example_def)
  then show ?thesis
    unfolding common_measures_def by simp
qed

text \<open>
  C5. For a performance table and the score table beside it, the merge returns (it does
  not raise) one record for each measure index that both tables have, in ascending
  order, and none for an index that only one of them has. In particular, performance
  measures 1, 2, 3, 5 and score measures 1, 3, 4 give records for the measures 1 and 3.
\<close>

theorem merge_perf_pure_measures:
  "\<exists>recs. merge_perf_pure perf_csv perf_df (Some pure_df) = Inr recs \<and>
     map rec_measure recs =
       sorted_list_of_set (set (map row_measure perf_df) \<inter> set (map row_measure pure_df)) \<and>
     distinct (map rec_measure recs) \<and>
     set (map rec_measure recs) = set (map row_measure perf_df) \<inter> set (map row_measure pure_df) \<and>
     (set (map row_measure perf_df) = {1, 2, 3, 5} \<and> set (map row_measure pure_df) = {1, 3, 4}
        \<longrightarrow> map rec_measure recs = [1, 3])"
proof -
  let ?recs = "map (merged_of perf_csv perf_df pure_df) (common_measures perf_df pure_df)"
  have m: "map rec_measure ?recs = common_measures perf_df pure_df"
    by (simp add: comp_def rec_measure_merged_of)
  have inst: "{1, 2, 3, 5} \<inter> {1, 3, 4} = {1, 3 :: int}" by auto
  have sl: "sorted_list_of_set {1, 3 :: int} = [1, 3]" by simp
  have cm: "common_measures perf_df pure_df = [1, 3]"
    if "set (map row_measure perf_df) = {1, 2, 3, 5}" "set (map row_measure pure_df) = {1, 3, 4}"
    unfolding common_measures_def that inst by (rule sl)
  have "map rec_measure ?recs = [1, 3]"
    if "set (map row_measure perf_df) = {1, 2, 3, 5}" "set (map row_measure pure_df) = {1, 3, 4}"
    using m cm [OF that] by simp
  then have "set (map row_measure perf_df) = {1, 2, 3, 5} \<and> set (map row_measure pure_df) = {1, 3, 4}
        \<longrightarrow> map rec_measure ?recs = [1, 3]" by blast
  then show ?thesis
    using m merge_closed_form [of perf_csv perf_df pure_df]
    by (auto simp: common_measures_def simp del: set_map)
qed

theorem merge_perf_pure_measures_witness:
  "set (map row_measure perf_example) = {1, 2, 3, 5} \<and>
   set (map row_measure pure_example) = {1, 3, 4} \<and>
   (\<exists>recs. merge_perf_pure ''perf.csv'' perf_example (Some pure_example) = Inr recs \<and>
      map rec_measure recs = [1, 3])"
proof -
  have a: "set (map row_measure perf_example) = {1, 2, 3, 5}"
    by (auto simp: perf_example_def)
  have b: "set (map row_measure pure_example) = {1, 3, 4}"
    by (auto simp: pure_example_def)
  from merge_perf_pure_measures [of "''perf.csv''" perf_example pure_example]
  obtain recs where r: "merge_perf_pure ''perf.csv'' perf_example (Some pure_example) = Inr recs"
    and i: "set (map row_measure perf_example) = {1, 2, 3, 5} \<and>
            set (map row_measure pure_example) = {1, 3, 4} \<longrightarrow> map rec_measure recs = [1, 3]"
    by (elim exE conjE)
  have "map rec_measure recs = [1, 3]"
    by (rule mp [OF i]) (rule conjI [OF a b])
  with r a b show ?thesis
    by (intro conjI exI)
qed

text \<open>
  C6. In the record of a common measure, the frame is the \<open>measure_start\<close> and
  \<open>measure_end\<close> of the first performance row of that measure. The performance list has,
  for each performance row of the measure and in the order of the table, the pitch, the
  onset less the measure start, the offset less the onset, and the measure end less the
  measure start; the score list has, for each score row of the measure and in the order
  of the table, the pitch, the onset less the measure start and the offset less the
  measure start.
\<close>

theorem merge_perf_pure_tuples:
  assumes "merge_perf_pure perf_csv perf_df (Some pure_df) = Inr recs"
    and "r \<in> set recs"
  shows "\<exists>first rest.
     filter (\<lambda>row. row_measure row = rec_measure r) perf_df = first # rest \<and>
     rec_x r =
       map (\<lambda>row. (row_note row, row_onset row - row_measure_start first,
                   row_offset row - row_onset row,
                   row_measure_end first - row_measure_start first)) (first # rest) \<and>
     rec_y r =
       map (\<lambda>row. (row_note row, row_onset row - row_measure_start first,
                   row_offset row - row_measure_start first))
         (filter (\<lambda>row. row_measure row = rec_measure r) pure_df)"
proof -
  from assms merge_closed_form [of perf_csv perf_df pure_df]
  obtain m where m: "m \<in> set (common_measures perf_df pure_df)"
    and r: "r = merged_of perf_csv perf_df pure_df m"
    by auto
  from m have "m \<in> row_measure ` set perf_df"
    by (auto simp: common_measures_def)
  then have "filter (\<lambda>row. row_measure row = m) perf_df \<noteq> []"
    by (auto simp: filter_empty_conv)
  then obtain first rest where fr: "filter (\<lambda>row. row_measure row = m) perf_df = first # rest"
    by (cases "filter (\<lambda>row. row_measure row = m) perf_df") auto
  show ?thesis
    using fr unfolding r by (simp add: merged_of_def Let_def)
qed

theorem merge_perf_pure_tuples_witness:
  "merge_perf_pure ''perf.csv'' perf_example (Some pure_example) =
     Inr [merged_of ''perf.csv'' perf_example pure_example 1,
          merged_of ''perf.csv'' perf_example pure_example 3] \<and>
   rec_measure (merged_of ''perf.csv'' perf_example pure_example 1) = 1 \<and>
   rec_x (merged_of ''perf.csv'' perf_example pure_example 1) =
     [(''C4'', 1 / 10, 1 / 2, 2), (''E4'', 1, 9 / 10, 2)] \<and>
   rec_y (merged_of ''perf.csv'' perf_example pure_example 1) =
     [(''C4'', 0, 1 / 2), (''E4'', 1, 2)]"
proof -
  let ?r = "merged_of ''perf.csv'' perf_example pure_example 1"
  have e: "merge_perf_pure ''perf.csv'' perf_example (Some pure_example) =
     Inr [?r, merged_of ''perf.csv'' perf_example pure_example 3]"
    by (simp add: merge_closed_form common_measures_example)
  have mem: "?r \<in> set [?r, merged_of ''perf.csv'' perf_example pure_example 3]"
    by simp
  have rm: "rec_measure ?r = 1"
    by (simp add: rec_measure_merged_of)
  have f: "filter (\<lambda>row. row_measure row = 1) perf_example = take 2 perf_example"
    by (simp add: perf_example_def)
  have g: "filter (\<lambda>row. row_measure row = 1) pure_example = take 2 pure_example"
    by (simp add: pure_example_def)
  from merge_perf_pure_tuples [OF e mem]
  have "rec_x ?r = [(''C4'', 1 / 10, 1 / 2, 2), (''E4'', 1, 9 / 10, 2)] \<and>
        rec_y ?r = [(''C4'', 0, 1 / 2), (''E4'', 1, 2)]"
    unfolding rm f g by (auto simp: perf_example_def pure_example_def)
  with e rm show ?thesis by blast
qed

end
